theory Spec2Isabelle
  imports Main "HOL-Library.Word"
begin

section \<open>Data model\<close>

text \<open>
  The development embeds the scheduler of \<^verbatim>\<open>proc.go\<close>. Pointers to goroutines, Ms and Ps
  (\<^verbatim>\<open>guintptr\<close>, \<^verbatim>\<open>muintptr\<close>, \<^verbatim>\<open>puintptr\<close>) are natural numbers with \<open>0\<close> for \<^verbatim>\<open>nil\<close>, as in
  the source. The ring indices \<^verbatim>\<open>runqhead\<close> and \<^verbatim>\<open>runqtail\<close> are \<^verbatim>\<open>uint32\<close> and wrap around;
  the \<^verbatim>\<open>int32\<close> counters (\<^verbatim>\<open>runqsize\<close>, \<^verbatim>\<open>gomaxprocs\<close>, \<^verbatim>\<open>stopwait\<close>) are integers, Go's
  truncating division written out where the source divides.

  Every function is the sequential reading of the source: an atomic load returns the current
  value, and a compare-and-swap succeeds exactly when the word still holds the expected value.
  A \<^verbatim>\<open>throw\<close> is the value \<open>Inl (Throw msg)\<close>. A call that never returns in a sequential
  run, because it acquires the scheduler mutex while it is held or spins on a word that nobody
  else changes, is the value \<open>Inl Blocked\<close>.
\<close>

type_synonym u32 = "32 word"
type_synonym guintptr = nat
type_synonym muintptr = nat
type_synonym puintptr = nat

datatype error = Throw string | Blocked

datatype pstatus = Pidle | Prunning | Psyscall | Pgcstop | Pdead

text \<open>The fields of \<^verbatim>\<open>type p struct\<close> that the scheduler core reads and writes; \<open>runq\<close> is
  the array \<^verbatim>\<open>[256]guintptr\<close>, always indexed modulo 256.\<close>

record p =
  status :: pstatus
  p_m :: muintptr
  schedtick :: u32
  syscalltick :: u32
  runqhead :: u32
  runqtail :: u32
  runq :: "nat \<Rightarrow> guintptr"
  runnext :: guintptr
  mcache :: nat

text \<open>The global \<^verbatim>\<open>sched\<close>. The global run queue, a list linked through \<^verbatim>\<open>schedlink\<close> from
  \<^verbatim>\<open>sched.runqhead\<close> to \<^verbatim>\<open>sched.runqtail\<close>, is the list \<open>grunq\<close> (head first); the idle lists
  \<^verbatim>\<open>sched.pidle\<close> and \<^verbatim>\<open>sched.midle\<close> are lists of pointers (head first); \<open>locked\<close> is
  \<^verbatim>\<open>sched.lock\<close>; \<open>stopnote\<close> and \<open>sysmonnote\<close> tell whether the note has been signalled.\<close>

record schedt =
  locked :: bool
  grunq :: "guintptr list"
  runqsize :: int
  pidle :: "puintptr list"
  npidle :: u32
  midle :: "muintptr list"
  nmidle :: int
  nmidlelocked :: int
  nmsys :: int
  mnext :: int
  nmfreed :: int
  maxmcount :: int
  nmspinning :: u32
  stopwait :: int
  gcwaiting :: u32
  stopnote :: bool
  sysmonwait :: u32
  sysmonnote :: bool

text \<open>The fields of \<^verbatim>\<open>type m struct\<close> in use; \<open>m_mcache\<close> is a pointer (\<open>0\<close> is \<^verbatim>\<open>nil\<close>),
  \<open>m_park\<close> tells whether the note \<^verbatim>\<open>park\<close> has been signalled, and \<open>m_mstartfn\<close> whether
  \<^verbatim>\<open>mstartfn\<close> is \<^verbatim>\<open>mspinning\<close>.\<close>

record m =
  m_p :: puintptr
  m_nextp :: puintptr
  m_spinning :: bool
  m_curg :: guintptr
  m_g0 :: guintptr
  m_lockedg :: guintptr
  m_mcache :: nat
  m_locks :: int
  m_park :: bool
  m_helpgc :: int
  m_mstartfn :: bool
  m_syscalltick :: u32

text \<open>Modelled from the spec: the status constants of a task (\<^verbatim>\<open>_Gidle\<close>, \<^verbatim>\<open>_Grunnable\<close>, \<dots>,
  and the bit \<^verbatim>\<open>_Gscan\<close>) are declared outside the sources at hand. Following the spec's data
  model, \<^verbatim>\<open>atomicstatus\<close> is a status with a scan overlay bit.\<close>

datatype gstatus = Gidle | Grunnable | Grunning | Gsyscall | Gwaiting | Gdead

text \<open>The fields of \<^verbatim>\<open>type g struct\<close> in use; \<open>stackguard0\<close> is an address.\<close>

record g =
  atomicstatus :: gstatus
  gscan :: bool
  preempt :: bool
  stackguard0 :: nat
  stack_lo :: nat
  g_m :: muintptr
  lockedm :: muintptr
  gcscanvalid :: bool
  syscallsp :: nat

text \<open>The state of the runtime: the scheduler, the slice \<^verbatim>\<open>allp\<close>, the objects behind the
  pointers to Ps, Ms and tasks (\<open>p_at\<close>, \<open>m_at\<close>, \<open>g_at\<close>), the slice \<^verbatim>\<open>allgs\<close>, the globals
  \<^verbatim>\<open>freezing\<close> and \<^verbatim>\<open>panicking\<close>, and what \<^verbatim>\<open>print\<close> has written. The global
  \<^verbatim>\<open>gomaxprocs\<close> is a parameter of the functions that read it.\<close>

record world =
  sched :: schedt
  allp :: "puintptr list"
  p_at :: "puintptr \<Rightarrow> p"
  m_at :: "muintptr \<Rightarrow> m"
  g_at :: "guintptr \<Rightarrow> g"
  allgs :: "guintptr list"
  freezing :: u32
  panicking :: u32
  printed :: "string list"

text \<open>The pseudo-random values a call consumes: \<open>fastrand\<close> is what \<^verbatim>\<open>fastrand()\<close> returns,
  \<open>fastrandn n\<close> what \<^verbatim>\<open>fastrandn(n)\<close> returns.\<close>

record rand =
  fastrand :: u32
  fastrandn :: "nat \<Rightarrow> nat"

text \<open>Modelled from the spec: the constant \<^verbatim>\<open>raceenabled\<close> is declared outside the sources at
  hand (it is true only in builds with the race detector). The spec describes no race-detector
  build, so the constant is false here; the branches it guards are kept in the model.\<close>

definition raceenabled :: bool where
  "raceenabled = False"

definition randomizeScheduler :: bool where
  "randomizeScheduler = raceenabled"

definition lock :: "schedt \<Rightarrow> error + schedt" where
  "lock sch = (if locked sch then Inl Blocked else Inr (sch\<lparr>locked := True\<rparr>))"

definition unlock :: "schedt \<Rightarrow> schedt" where
  "unlock sch = sch\<lparr>locked := False\<rparr>"

section \<open>Global run queue: putting\<close>

definition globrunqput :: "guintptr \<Rightarrow> schedt \<Rightarrow> schedt" where
  "globrunqput gp sch = sch\<lparr>grunq := grunq sch @ [gp], runqsize := runqsize sch + 1\<rparr>"

definition globrunqputhead :: "guintptr \<Rightarrow> schedt \<Rightarrow> schedt" where
  "globrunqputhead gp sch = sch\<lparr>grunq := gp # grunq sch, runqsize := runqsize sch + 1\<rparr>"

text \<open>\<^verbatim>\<open>globrunqputbatch(ghead, gtail, n)\<close>: the chain from \<^verbatim>\<open>ghead\<close> to \<^verbatim>\<open>gtail\<close> is the list
  \<open>batch\<close>.\<close>

definition globrunqputbatch :: "guintptr list \<Rightarrow> int \<Rightarrow> schedt \<Rightarrow> schedt" where
  "globrunqputbatch batch n sch =
     sch\<lparr>grunq := grunq sch @ batch, runqsize := runqsize sch + n\<rparr>"

section \<open>Local run queue\<close>

definition swap_at :: "nat \<Rightarrow> nat \<Rightarrow> 'a list \<Rightarrow> 'a list" where
  "swap_at i j xs = (xs[i := xs ! j])[j := xs ! i]"

text \<open>The shuffle of \<^verbatim>\<open>runqputslow\<close> under \<^verbatim>\<open>randomizeScheduler\<close>:
  \<^verbatim>\<open>for i := 1; i <= n; i++ { j := fastrandn(i + 1); batch[i], batch[j] = batch[j], batch[i] }\<close>;
  \<^verbatim>\<open>fastrandn(i + 1)\<close> lies below \<open>i + 1\<close>.\<close>

fun shuffle :: "rand \<Rightarrow> nat list \<Rightarrow> guintptr list \<Rightarrow> guintptr list" where
  "shuffle rnd [] batch = batch"
| "shuffle rnd (i # is) batch =
     shuffle rnd is (swap_at i (fastrandn rnd (i + 1) mod (i + 1)) batch)"

text \<open>\<^verbatim>\<open>runqputslow(_p_, gp, h, t)\<close> returns \<^verbatim>\<open>false\<close> when the compare-and-swap of
  \<^verbatim>\<open>runqhead\<close> from \<open>h\<close> fails.\<close>

definition runqputslow ::
  "rand \<Rightarrow> p \<Rightarrow> guintptr \<Rightarrow> u32 \<Rightarrow> u32 \<Rightarrow> schedt \<Rightarrow> error + (bool \<times> p \<times> schedt)" where
  "runqputslow rnd pp gp h t sch =
    (let n = (t - h) div 2 in
     if n \<noteq> 128 then Inl (Throw ''runqputslow: queue is not full'')
     else
       let batch0 = map (\<lambda>i. runq pp (unat (h + of_nat i) mod 256)) [0..<unat n] in
       if runqhead pp \<noteq> h then Inr (False, pp, sch)
       else
         let pp' = pp\<lparr>runqhead := h + n\<rparr>;
             batch1 = batch0 @ [gp];
             batch = (if randomizeScheduler then shuffle rnd [1..<unat n + 1] batch1
                      else batch1)
         in case lock sch of
              Inl e \<Rightarrow> Inl e
            | Inr sch1 \<Rightarrow>
                Inr (True, pp', unlock (globrunqputbatch batch (int (unat n) + 1) sch1)))"

lemma runqputslow_own_head:
  "runqputslow rnd pp gp (runqhead pp) t sch \<noteq> Inr (False, pp', sch')"
  by (simp add: runqputslow_def Let_def split: sum.split)

text \<open>The part of \<^verbatim>\<open>runqput\<close> from the label \<^verbatim>\<open>retry\<close> on; the recursive call is
  \<^verbatim>\<open>goto retry\<close>.\<close>

function runqput_ring :: "rand \<Rightarrow> p \<Rightarrow> guintptr \<Rightarrow> schedt \<Rightarrow> error + (p \<times> schedt)" where
  "runqput_ring rnd pp gp sch =
    (let h = runqhead pp; t = runqtail pp in
     if t - h < 256 then
       Inr (pp\<lparr>runq := (runq pp)(unat t mod 256 := gp), runqtail := t + 1\<rparr>, sch)
     else
       case runqputslow rnd pp gp h t sch of
         Inl e \<Rightarrow> Inl e
       | Inr (ok, pp', sch') \<Rightarrow>
           if ok then Inr (pp', sch') else runqput_ring rnd pp' gp sch')"
  by pat_completeness auto
termination
  apply (relation "{}")
   apply simp
  apply (simp only: empty_iff)
  using runqputslow_own_head apply fastforce
  done

declare runqput_ring.simps [simp del]

definition runqput :: "rand \<Rightarrow> p \<Rightarrow> guintptr \<Rightarrow> bool \<Rightarrow> schedt \<Rightarrow> error + (p \<times> schedt)" where
  "runqput rnd pp gp nxt sch =
    (let nxt1 = (if randomizeScheduler \<and> nxt \<and> fastrand rnd mod 2 = 0 then False else nxt) in
     if nxt1 then
       (let oldnext = runnext pp; pp1 = pp\<lparr>runnext := gp\<rparr> in
        if oldnext = 0 then Inr (pp1, sch) else runqput_ring rnd pp1 oldnext sch)
     else runqput_ring rnd pp gp sch)"

text \<open>\<^verbatim>\<open>runqget\<close> returns the pair \<^verbatim>\<open>(gp, inheritTime)\<close> and the context after the call.\<close>

definition runqget :: "p \<Rightarrow> (guintptr \<times> bool) \<times> p" where
  "runqget pp =
    (if runnext pp \<noteq> 0 then ((runnext pp, True), pp\<lparr>runnext := 0\<rparr>)
     else
       let h = runqhead pp; t = runqtail pp in
       if t = h then ((0, False), pp)
       else ((runq pp (unat h mod 256), False), pp\<lparr>runqhead := h + 1\<rparr>))"

text \<open>A single-threaded sequence of operations on one context: each \<open>Push gp nxt\<close> is
  \<^verbatim>\<open>runqput(_p_, gp, nxt)\<close>, each \<open>Pop\<close> is \<^verbatim>\<open>runqget(_p_)\<close>; the results of the pops are
  collected in order.\<close>

datatype qop = Push guintptr bool | Pop

fun run_ops ::
  "rand \<Rightarrow> qop list \<Rightarrow> p \<Rightarrow> schedt \<Rightarrow> error + ((guintptr \<times> bool) list \<times> p \<times> schedt)" where
  "run_ops rnd [] pp sch = Inr ([], pp, sch)"
| "run_ops rnd (Push gp nxt # ops) pp sch =
     (case runqput rnd pp gp nxt sch of
        Inl e \<Rightarrow> Inl e
      | Inr (pp', sch') \<Rightarrow> run_ops rnd ops pp' sch')"
| "run_ops rnd (Pop # ops) pp sch =
     (case runqget pp of
        (r, pp') \<Rightarrow>
          (case run_ops rnd ops pp' sch of
             Inl e \<Rightarrow> Inl e
           | Inr (rs, pp'', sch') \<Rightarrow> Inr (r # rs, pp'', sch')))"

text \<open>The spec's words for the \<^verbatim>\<open>next\<close> slot: the last task pushed with
  \<^verbatim>\<open>favor_next = true\<close> that no pop has taken since (\<open>0\<close> when there is none).\<close>

fun last_favoured :: "qop list \<Rightarrow> guintptr \<Rightarrow> guintptr" where
  "last_favoured [] cur = cur"
| "last_favoured (Push gp nxt # ops) cur = last_favoured ops (if nxt then gp else cur)"
| "last_favoured (Pop # ops) cur = last_favoured ops 0"

section \<open>Work stealing\<close>

text \<open>\<^verbatim>\<open>runqgrab\<close> loops until an attempt commits. One attempt is \<open>runqgrab_try\<close>: it works on
  the victim as the loads of that attempt return it, and its compare-and-swap succeeds on that
  view; \<open>Retry\<close> is \<^verbatim>\<open>continue\<close>. The \<^verbatim>\<open>usleep(3)\<close> (or \<^verbatim>\<open>osyield\<close>) before the \<^verbatim>\<open>next\<close> slot
  of a running victim is taken changes no state and has no counterpart here. The loop
  \<open>runqgrab\<close> takes one view of the victim per attempt, since other threads may change the
  victim between attempts; \<open>None\<close> says that no attempt on the given views committed.\<close>

datatype grab = Retry | Grabbed u32 p "nat \<Rightarrow> guintptr"

text \<open>The copy loop
  \<^verbatim>\<open>for i := uint32(0); i < n; i++ { batch[(batchHead+i)%256] = _p_.runq[(h+i)%256] }\<close>.\<close>

definition runqgrab_copy ::
  "p \<Rightarrow> (nat \<Rightarrow> guintptr) \<Rightarrow> u32 \<Rightarrow> u32 \<Rightarrow> nat \<Rightarrow> (nat \<Rightarrow> guintptr)" where
  "runqgrab_copy v batch batchHead h n =
     fold (\<lambda>i b. b(unat (batchHead + of_nat i) mod 256 := runq v (unat (h + of_nat i) mod 256)))
       [0..<n] batch"

definition runqgrab_try :: "p \<Rightarrow> (nat \<Rightarrow> guintptr) \<Rightarrow> u32 \<Rightarrow> bool \<Rightarrow> grab" where
  "runqgrab_try v batch batchHead stealRunNextG =
    (let h = runqhead v; t = runqtail v; n0 = t - h; n = n0 - n0 div 2 in
     if n = 0 then
       (if stealRunNextG \<and> runnext v \<noteq> 0 then
          Grabbed 1 (v\<lparr>runnext := 0\<rparr>) (batch(unat batchHead mod 256 := runnext v))
        else Grabbed 0 v batch)
     else if n > 128 then Retry
     else Grabbed n (v\<lparr>runqhead := h + n\<rparr>) (runqgrab_copy v batch batchHead h (unat n)))"

fun runqgrab ::
  "p list \<Rightarrow> (nat \<Rightarrow> guintptr) \<Rightarrow> u32 \<Rightarrow> bool \<Rightarrow> (u32 \<times> p \<times> (nat \<Rightarrow> guintptr)) option" where
  "runqgrab [] batch batchHead stealRunNextG = None"
| "runqgrab (v # vs) batch batchHead stealRunNextG =
     (case runqgrab_try v batch batchHead stealRunNextG of
        Retry \<Rightarrow> runqgrab vs batch batchHead stealRunNextG
      | Grabbed n v' batch' \<Rightarrow> Some (n, v', batch'))"

text \<open>\<^verbatim>\<open>runqsteal(_p_, p2, stealRunNextG)\<close> for a thief \<open>pp\<close> and a victim \<^verbatim>\<open>p2\<close> that is another
  context, given by its views; the result is the returned task, the thief and the victim.\<close>

definition runqsteal :: "p \<Rightarrow> p list \<Rightarrow> bool \<Rightarrow> (error + (guintptr \<times> p \<times> p)) option" where
  "runqsteal pp views stealRunNextG =
    (let t = runqtail pp in
     case runqgrab views (runq pp) t stealRunNextG of
       None \<Rightarrow> None
     | Some (n, v', batch') \<Rightarrow>
         let pp1 = pp\<lparr>runq := batch'\<rparr> in
         if n = 0 then Some (Inr (0, pp1, v'))
         else
           let n1 = n - 1; gp = runq pp1 (unat (t + n1) mod 256) in
           if n1 = 0 then Some (Inr (gp, pp1, v'))
           else
             let h = runqhead pp1 in
             if t - h + n1 \<ge> 256 then Some (Inl (Throw ''runqsteal: runq overflow''))
             else Some (Inr (gp, pp1\<lparr>runqtail := t + n1\<rparr>, v')))"

section \<open>Global run queue: getting\<close>







section \<open>The dispatch loop\<close>








section \<open>The stealing phase of findrunnable\<close>




















section \<open>Readying a task and waking a worker\<close>

text \<open>Modelled from the spec: \<^verbatim>\<open>stackPreempt\<close> is declared outside the sources at hand; it is the
  sentinel that \<^verbatim>\<open>preempt\<close> writes into the stack-guard field of a task, a value larger than any
  stack pointer.\<close>

definition stackPreempt :: nat where
  "stackPreempt = 18446744073709550302"

definition print :: "string \<Rightarrow> world \<Rightarrow> world" where
  "print s w = w\<lparr>printed := printed w @ [s]\<rparr>"


text \<open>\<^verbatim>\<open>pidleget\<close> and \<^verbatim>\<open>mget\<close> take the head of an idle list; \<open>0\<close> is \<^verbatim>\<open>nil\<close>.\<close>

definition pidleget :: "schedt \<Rightarrow> puintptr \<times> schedt" where
  "pidleget sch =
    (case pidle sch of
       [] \<Rightarrow> (0, sch)
     | pp # rest \<Rightarrow> (pp, sch\<lparr>pidle := rest, npidle := npidle sch - 1\<rparr>))"

definition mget :: "schedt \<Rightarrow> muintptr \<times> schedt" where
  "mget sch =
    (case midle sch of
       [] \<Rightarrow> (0, sch)
     | mp # rest \<Rightarrow> (mp, sch\<lparr>midle := rest, nmidle := nmidle sch - 1\<rparr>))"

text \<open>\<^verbatim>\<open>runqempty\<close>, whose loop ends at once when the tail does not change between its two
  loads.\<close>

definition runqempty :: "p \<Rightarrow> bool" where
  "runqempty pp \<longleftrightarrow> runqhead pp = runqtail pp \<and> runnext pp = 0"

definition mcount :: "schedt \<Rightarrow> int" where
  "mcount sch = mnext sch - nmfreed sch"

definition checkmcount :: "schedt \<Rightarrow> error + unit" where
  "checkmcount sch =
    (if mcount sch > maxmcount sch then Inl (Throw ''thread exhaustion'') else Inr ())"

text \<open>The part of \<^verbatim>\<open>mcommoninit\<close> under the scheduler mutex: the new M takes the next id and
  the thread limit is checked; \<^verbatim>\<open>sched.mnext\<close> is an \<^verbatim>\<open>int64\<close>.\<close>

definition mcommoninit :: "muintptr \<Rightarrow> world \<Rightarrow> error + world" where
  "mcommoninit mp w =
    (case lock (sched w) of
       Inl e \<Rightarrow> Inl e
     | Inr sch1 \<Rightarrow>
         if mnext sch1 + 1 \<ge> 2 ^ 63 then Inl (Throw ''runtime: thread ID overflow'')
         else
           let sch2 = sch1\<lparr>mnext := mnext sch1 + 1\<rparr> in
           case checkmcount sch2 of
             Inl e \<Rightarrow> Inl e
           | Inr u \<Rightarrow> Inr (w\<lparr>sched := unlock sch2\<rparr>))"

text \<open>\<^verbatim>\<open>newm(fn, _p_)\<close> creates an M at the address \<open>newmp\<close>, which \<^verbatim>\<open>allocm\<close> returns, with
  \<^verbatim>\<open>nextp = _p_\<close>, and starts its thread; \<open>fn\<close> tells whether the start function is
  \<^verbatim>\<open>mspinning\<close>. The new thread runs \<^verbatim>\<open>mstart1\<close>, which first calls the start function
  (\<open>mstart1_fn\<close>).\<close>

definition newm :: "muintptr \<Rightarrow> bool \<Rightarrow> puintptr \<Rightarrow> world \<Rightarrow> error + world" where
  "newm newmp fn pp w =
    (case mcommoninit newmp w of
       Inl e \<Rightarrow> Inl e
     | Inr w1 \<Rightarrow>
         Inr (w1\<lparr>m_at := (m_at w1)(newmp :=
                \<lparr>m_p = 0, m_nextp = pp, m_spinning = False, m_curg = 0, m_g0 = 0,
                 m_lockedg = 0, m_mcache = 0, m_locks = 0, m_park = False, m_helpgc = 0,
                 m_mstartfn = fn, m_syscalltick = 0\<rparr>)\<rparr>))"



text \<open>\<^verbatim>\<open>startm(_p_, spinning)\<close>; \<^verbatim>\<open>notewakeup(&mp.park)\<close> signals the note of the M.\<close>

definition startm :: "muintptr \<Rightarrow> puintptr \<Rightarrow> bool \<Rightarrow> world \<Rightarrow> error + world" where
  "startm newmp pp0 spinning w =
    (case lock (sched w) of
       Inl e \<Rightarrow> Inl e
     | Inr sch1 \<Rightarrow>
         let (pp, sch2) = (if pp0 = 0 then pidleget sch1 else (pp0, sch1)) in
         if pp = 0 then
           (let sch3 = unlock sch2 in
            if spinning then
              (let sch4 = sch3\<lparr>nmspinning := nmspinning sch3 - 1\<rparr> in
               if sint (nmspinning sch4) < 0 then Inl (Throw ''startm: negative nmspinning'')
               else Inr (w\<lparr>sched := sch4\<rparr>))
            else Inr (w\<lparr>sched := sch3\<rparr>))
         else
           let (mp, sch3) = mget sch2; w1 = w\<lparr>sched := unlock sch3\<rparr> in
           if mp = 0 then newm newmp spinning pp w1
           else if m_spinning (m_at w1 mp) then Inl (Throw ''startm: m is spinning'')
           else if m_nextp (m_at w1 mp) \<noteq> 0 then Inl (Throw ''startm: m has p'')
           else if spinning \<and> \<not> runqempty (p_at w1 pp) then
             Inl (Throw ''startm: p has runnable gs'')
           else
             Inr (w1\<lparr>m_at := (m_at w1)(mp := (m_at w1 mp)
                    \<lparr>m_spinning := spinning, m_nextp := pp, m_park := True\<rparr>)\<rparr>))"

text \<open>\<^verbatim>\<open>wakep\<close>: the compare-and-swap of \<^verbatim>\<open>sched.nmspinning\<close> from 0 to 1, the \<^verbatim>\<open>print\<close> of
  this repository, and \<^verbatim>\<open>startm(nil, true)\<close>.\<close>

definition wakep :: "muintptr \<Rightarrow> world \<Rightarrow> error + world" where
  "wakep newmp w =
    (if nmspinning (sched w) \<noteq> 0 then Inr w
     else
       let w1 = w\<lparr>sched := (sched w)\<lparr>nmspinning := 1\<rparr>\<rparr>;
           w2 = print ''startm\<newline>'' w1
       in startm newmp 0 True w2)"


text \<open>\<^verbatim>\<open>_g_.m.locks++\<close> for the running task \<open>cur\<close>, and the matching
  \<^verbatim>\<open>_g_.m.locks--\<close> with the restore of a pending preemption request.\<close>

definition locks_inc :: "guintptr \<Rightarrow> world \<Rightarrow> world" where
  "locks_inc cur w =
    (let mp = g_m (g_at w cur) in
     w\<lparr>m_at := (m_at w)(mp := (m_at w mp)\<lparr>m_locks := m_locks (m_at w mp) + 1\<rparr>)\<rparr>)"

definition locks_dec :: "guintptr \<Rightarrow> world \<Rightarrow> world" where
  "locks_dec cur w =
    (let mp = g_m (g_at w cur);
         w1 = w\<lparr>m_at := (m_at w)(mp := (m_at w mp)\<lparr>m_locks := m_locks (m_at w mp) - 1\<rparr>)\<rparr>
     in
     if m_locks (m_at w1 mp) = 0 \<and> preempt (g_at w1 cur) then
       w1\<lparr>g_at := (g_at w1)(cur := (g_at w1 cur)\<lparr>stackguard0 := stackPreempt\<rparr>)\<rparr>
     else w1)"




section \<open>Creating a task\<close>

unbundle bit_operations_syntax





section \<open>Example states\<close>

text \<open>A running context with an empty queue, an empty scheduler and a random source, as inputs
  for the examples that follow.\<close>

definition p_empty :: p where
  "p_empty = \<lparr>status = Prunning, p_m = 1, schedtick = 0, syscalltick = 0, runqhead = 0,
     runqtail = 0, runq = (\<lambda>_. 0), runnext = 0, mcache = 1\<rparr>"

definition sched_empty :: schedt where
  "sched_empty = \<lparr>locked = False, grunq = [], runqsize = 0, pidle = [], npidle = 0,
     midle = [], nmidle = 0, nmidlelocked = 0, nmsys = 0, mnext = 1, nmfreed = 0,
     maxmcount = 10000, nmspinning = 0, stopwait = 0, gcwaiting = 0, stopnote = False,
     sysmonwait = 0, sysmonnote = False\<rparr>"

definition rand_zero :: rand where
  "rand_zero = \<lparr>fastrand = 0, fastrandn = (\<lambda>_. 0)\<rparr>"


definition p_victim :: p where
  "p_victim = p_empty\<lparr>runqhead := 254, runqtail := 259,
     runq := (\<lambda>_. 0)(254 := 11, 255 := 12, 0 := 13, 1 := 14, 2 := 15)\<rparr>"












section \<open>Properties of the local run queue\<close>

lemma runqput_ring_unfold:
  "runqput_ring rnd pp gp sch =
    (if runqtail pp - runqhead pp < 256 then
       Inr (pp\<lparr>runq := (runq pp)(unat (runqtail pp) mod 256 := gp),
               runqtail := runqtail pp + 1\<rparr>, sch)
     else
       case runqputslow rnd pp gp (runqhead pp) (runqtail pp) sch of
         Inl e \<Rightarrow> Inl e
       | Inr (ok, pp', sch') \<Rightarrow> Inr (pp', sch'))"
proof (cases "runqtail pp - runqhead pp < 256")
  case True
  then show ?thesis by (simp add: runqput_ring.simps [of rnd pp gp sch] Let_def)
next
  case False
  show ?thesis
  proof (cases "runqputslow rnd pp gp (runqhead pp) (runqtail pp) sch")
    case (Inl e)
    with False show ?thesis by (simp add: runqput_ring.simps [of rnd pp gp sch] Let_def)
  next
    case (Inr r)
    obtain ok pp' sch' where r: "r = (ok, pp', sch')" by (cases r) auto
    with Inr runqputslow_own_head [of rnd pp gp "runqtail pp" sch pp' sch'] have ok by auto
    with False Inr r show ?thesis by (simp add: runqput_ring.simps [of rnd pp gp sch] Let_def)
  qed
qed

lemma runqput_ring_runnext:
  "runqput_ring rnd pp gp sch = Inr (pp', sch') \<Longrightarrow> runnext pp' = runnext pp"
  by (auto simp: runqput_ring_unfold runqputslow_def Let_def lock_def
           split: if_splits sum.splits)

lemma runqput_runnext:
  "runqput rnd pp gp nxt sch = Inr (pp', sch') \<Longrightarrow>
   runnext pp' = (if nxt then gp else runnext pp)"
  by (auto simp: runqput_def randomizeScheduler_def raceenabled_def Let_def
           dest: runqput_ring_runnext split: if_splits)

lemma runqget_runnext: "runnext (snd (runqget pp)) = 0"
  by (simp add: runqget_def Let_def)

lemma run_ops_runnext:
  "run_ops rnd ops pp sch = Inr (rs, pp', sch') \<Longrightarrow>
   runnext pp' = last_favoured ops (runnext pp)"
proof (induction ops arbitrary: pp sch rs)
  case Nil
  then show ?case by simp
next
  case (Cons x ops)
  show ?case
  proof (cases x)
    case (Push gp nxt)
    with Cons.prems obtain pp1 sch1 where
      put: "runqput rnd pp gp nxt sch = Inr (pp1, sch1)" and
      rest: "run_ops rnd ops pp1 sch1 = Inr (rs, pp', sch')"
      by (auto split: sum.splits)
    from Cons.IH [OF rest] runqput_runnext [OF put] Push show ?thesis by simp
  next
    case Pop
    obtain r pp1 where get: "runqget pp = (r, pp1)" by (cases "runqget pp") auto
    with Cons.prems Pop obtain rs1 where
      rest: "run_ops rnd ops pp1 sch = Inr (rs1, pp', sch')"
      by (auto split: sum.splits)
    from runqget_runnext [of pp] get have "runnext pp1 = 0" by simp
    with Cons.IH [OF rest] Pop show ?thesis by simp
  qed
qed

text \<open>
  C8. After any single-threaded sequence of pushes and pops on one context, a pop first takes
  the \<^verbatim>\<open>next\<close> slot: when a task pushed with \<^verbatim>\<open>favor_next = true\<close> is still there, the pop
  returns that task (the last one so pushed), whatever the ring holds, with
  \<^verbatim>\<open>inherited_timeslice = true\<close> and empties the slot; otherwise the pop goes to the ring and
  returns \<^verbatim>\<open>inherited_timeslice = false\<close>, with the element at the head when the ring is not
  empty.
\<close>

theorem runqget_after_ops:
  assumes "run_ops rnd ops pp sch = Inr (rs, pp', sch')"
  shows "(last_favoured ops (runnext pp) \<noteq> 0 \<longrightarrow>
            fst (runqget pp') = (last_favoured ops (runnext pp), True) \<and>
            runnext (snd (runqget pp')) = 0 \<and>
            runqhead (snd (runqget pp')) = runqhead pp') \<and>
         (last_favoured ops (runnext pp) = 0 \<longrightarrow>
            snd (fst (runqget pp')) = False \<and>
            (runqtail pp' \<noteq> runqhead pp' \<longrightarrow>
               fst (fst (runqget pp')) = runq pp' (unat (runqhead pp') mod 256) \<and>
               runqhead (snd (runqget pp')) = runqhead pp' + 1))"
  using run_ops_runnext [OF assms] by (simp add: runqget_def Let_def)

theorem runqget_after_ops_witness:
  "case run_ops rand_zero [Push 1 False, Push 2 True, Push 3 False] p_empty sched_empty of
     Inl e \<Rightarrow> False
   | Inr (rs, pp', sch') \<Rightarrow> fst (runqget pp') = (2, True) \<and> runq pp' 0 = 1"
proof -
  let ?pp = "p_empty\<lparr>runq := (\<lambda>_. 0)(0 := 1, 1 := 3), runqtail := 2, runnext := 2\<rparr>"
  have run: "run_ops rand_zero [Push 1 False, Push 2 True, Push 3 False] p_empty sched_empty =
      Inr ([], ?pp, sched_empty)"
    by (simp add: runqput_def runqput_ring_unfold randomizeScheduler_def raceenabled_def
        p_empty_def Let_def)
  from runqget_after_ops [OF run] have "fst (runqget ?pp) = (2, True) \<and> runq ?pp 0 = 1"
    by (simp add: p_empty_def)
  then show ?thesis unfolding run by simp
qed



section \<open>Properties of work stealing\<close>

lemma ring_index: "i < 2 ^ 32 \<Longrightarrow> unat ((x :: u32) + of_nat i) mod 256 = (unat x + i) mod 256"
proof -
  assume "i < 2 ^ 32"
  have "unat (x + of_nat i) = (unat x + i) mod 2 ^ 32"
    by (simp add: unat_word_ariths unat_of_nat mod_add_right_eq)
  moreover have "(256 :: nat) dvd 2 ^ 32" by simp
  ultimately show ?thesis by (simp add: mod_mod_cancel)
qed

lemma ring_index_inj:
  assumes "i < 256" "j < 256" "(a + i) mod 256 = (a + j) mod (256 :: nat)"
  shows "i = j"
proof -
  have le: "x = y" if "y \<le> x" "x < 256" "(a + x) mod 256 = (a + y) mod (256 :: nat)" for x y
  proof -
    from that have "256 dvd (a + x) - (a + y)"
      by (simp add: mod_eq_dvd_iff_nat)
    then have "256 dvd x - y" by simp
    moreover from that have "x - y < 256" by simp
    ultimately have "x - y = 0" by (meson dvd_imp_le not_less zero_less_iff_neq_zero)
    with that show ?thesis by simp
  qed
  show ?thesis
  proof (cases "j \<le> i")
    case True
    with le [of j i] assms show ?thesis by simp
  next
    case False
    with le [of i j] assms show ?thesis by simp
  qed
qed

lemma runqgrab_copy_get:
  assumes "n \<le> 256" "i < n"
  shows "runqgrab_copy v batch bh h n (unat (bh + of_nat i) mod 256) =
         runq v (unat (h + of_nat i) mod 256)"
  using assms
proof (induction n)
  case 0
  then show ?case by simp
next
  case (Suc n)
  have step: "runqgrab_copy v batch bh h (Suc n) =
      (runqgrab_copy v batch bh h n)
        (unat (bh + of_nat n) mod 256 := runq v (unat (h + of_nat n) mod 256))"
    by (simp add: runqgrab_copy_def)
  show ?case
  proof (cases "i = n")
    case True
    then show ?thesis by (simp add: step)
  next
    case False
    with Suc.prems have "i < n" by simp
    have "unat (bh + of_nat i) mod 256 \<noteq> unat (bh + of_nat n) mod 256"
    proof
      assume "unat (bh + of_nat i) mod 256 = unat (bh + of_nat n) mod 256"
      then have "(unat bh + i) mod 256 = (unat bh + n) mod 256"
        using Suc.prems by (simp add: ring_index)
      with ring_index_inj [of i n "unat bh"] Suc.prems False show False by simp
    qed
    with Suc.IH \<open>i < n\<close> Suc.prems show ?thesis by (simp add: step)
  qed
qed

lemma word_of_unat: "unat (w :: u32) = m \<Longrightarrow> w = of_nat m"
  by auto

lemma steal_count:
  fixes n0 :: u32
  assumes "0 < unat n0" "unat n0 \<le> 256"
  shows "unat (n0 - n0 div 2) = unat n0 - unat n0 div 2"
    and "n0 - n0 div 2 \<noteq> 0"
    and "\<not> n0 - n0 div 2 > 128"
proof -
  have d: "unat (n0 div 2) = unat n0 div 2" by (simp add: unat_div)
  then have "n0 div 2 \<le> n0" by (simp add: word_le_nat_alt)
  then show u: "unat (n0 - n0 div 2) = unat n0 - unat n0 div 2"
    by (simp add: unat_sub d)
  from u assms have "0 < unat (n0 - n0 div 2)" by simp
  then show "n0 - n0 div 2 \<noteq> 0" by (simp add: unat_gt_0)
  from u assms have "unat (n0 - n0 div 2) \<le> 128" by simp
  then show "\<not> n0 - n0 div 2 > 128" by (simp add: word_less_nat_alt)
qed

lemma runqgrab_try_half:
  assumes "0 < unat (runqtail v - runqhead v)" "unat (runqtail v - runqhead v) \<le> 256"
  shows "runqgrab_try v batch bh s =
    Grabbed (runqtail v - runqhead v - (runqtail v - runqhead v) div 2)
      (v\<lparr>runqhead := runqhead v + (runqtail v - runqhead v - (runqtail v - runqhead v) div 2)\<rparr>)
      (runqgrab_copy v batch bh (runqhead v)
         (unat (runqtail v - runqhead v) - unat (runqtail v - runqhead v) div 2))"
  using steal_count [OF assms] by (simp add: runqgrab_try_def Let_def)

lemma runqsteal_retry:
  assumes "256 < unat (runqtail v - runqhead v)"
  shows "runqsteal pp (v # vs) s = runqsteal pp vs s"
proof -
  let ?d = "runqtail v - runqhead v"
  have d: "unat (?d div 2) = unat ?d div 2" by (simp add: unat_div)
  then have "?d div 2 \<le> ?d" by (simp add: word_le_nat_alt)
  then have u: "unat (?d - ?d div 2) = unat ?d - unat ?d div 2"
    by (simp add: unat_sub d)
  with assms have "128 < unat (?d - ?d div 2)" by simp
  then have big: "?d - ?d div 2 > 128" by (simp add: word_less_nat_alt)
  then have "?d - ?d div 2 \<noteq> 0" by auto
  with big have "runqgrab_try v (runq pp) (runqtail pp) s = Retry"
    by (simp add: runqgrab_try_def Let_def)
  then show ?thesis by (simp add: runqsteal_def)
qed

lemma runqsteal_grabbed:
  assumes grab: "runqgrab views (runq pp) (runqtail pp) s = Some (n, v', batch')"
    and nz: "n \<noteq> 0"
    and ok: "n - 1 \<noteq> 0 \<Longrightarrow> \<not> 256 \<le> runqtail pp - runqhead pp + (n - 1)"
  shows "runqsteal pp views s =
    Some (Inr (batch' (unat (runqtail pp + (n - 1)) mod 256),
      pp\<lparr>runq := batch', runqtail := runqtail pp + (n - 1)\<rparr>, v'))"
proof (cases "n - 1 = 0")
  case True
  with grab nz show ?thesis by (simp add: runqsteal_def Let_def)
next
  case False
  with grab nz ok show ?thesis by (simp add: runqsteal_def Let_def)
qed

lemma runqsteal_commit:
  assumes k: "k = unat (runqtail v - runqhead v)" and pos: "0 < k" and le: "k \<le> 256"
    and room: "unat (runqtail pp - runqhead pp) + (k - k div 2) \<le> 256"
  shows "runqsteal pp (v # vs) s =
    Some (Inr (runq v (unat (runqhead v + of_nat (k - k div 2 - 1)) mod 256),
      pp\<lparr>runq := runqgrab_copy v (runq pp) (runqtail pp) (runqhead v) (k - k div 2),
         runqtail := runqtail pp + of_nat (k - k div 2 - 1)\<rparr>,
      v\<lparr>runqhead := runqhead v + of_nat (k - k div 2)\<rparr>))"
proof -
  let ?d = "runqtail v - runqhead v"
  let ?m = "k - k div 2"
  let ?copy = "runqgrab_copy v (runq pp) (runqtail pp) (runqhead v) ?m"
  define n where "n = ?d - ?d div 2"
  from k pos le have sc: "unat n = ?m" "n \<noteq> 0"
    unfolding n_def using steal_count [of ?d] by simp_all
  from sc(1) have n_eq: "n = of_nat ?m" by (rule word_of_unat)
  from pos le have m: "1 \<le> ?m" "?m \<le> 128" by auto
  have grab: "runqgrab (v # vs) (runq pp) (runqtail pp) s =
      Some (n, v\<lparr>runqhead := runqhead v + n\<rparr>, ?copy)"
    unfolding n_def using k pos le by (simp add: runqgrab_try_half)
  from sc(2) have "1 \<le> n" by (simp add: word_le_nat_alt unat_gt_0 Suc_le_eq)
  then have n1: "unat (n - 1) = ?m - 1" by (simp add: unat_sub sc(1))
  then have n1_eq: "n - 1 = of_nat (?m - 1)" by (rule word_of_unat)
  have gp: "?copy (unat (runqtail pp + (n - 1)) mod 256) =
      runq v (unat (runqhead v + of_nat (?m - 1)) mod 256)"
    unfolding n1_eq using m by (intro runqgrab_copy_get) auto
  have ok: "\<not> 256 \<le> runqtail pp - runqhead pp + (n - 1)"
  proof -
    have small: "unat (runqtail pp - runqhead pp) + unat (n - 1) < 256"
      using room m unfolding n1 by arith
    then have "unat (runqtail pp - runqhead pp) + unat (n - 1) < 2 ^ LENGTH(32)" by simp
    then have "unat (runqtail pp - runqhead pp + (n - 1)) =
        unat (runqtail pp - runqhead pp) + unat (n - 1)"
      by (rule unat_add_lem [THEN iffD1])
    with small have "unat (runqtail pp - runqhead pp + (n - 1)) < 256" by simp
    then show ?thesis by (simp add: word_le_nat_alt)
  qed
  note r = runqsteal_grabbed [OF grab sc(2) ok, unfolded gp]
  note r' = r [unfolded n1_eq]
  show ?thesis by (rule r' [unfolded n_eq])
qed

lemma victim_left:
  fixes d :: u32
  shows "unat (d - (d - d div 2)) = unat d div 2"
  by (simp add: unat_div)

text \<open>
  C4. Let \<open>k = tail - head\<close> be the number of elements the thief reads off the victim's ring.
  When \<open>0 < k \<le> 256\<close> (a consistent snapshot) and the thief's ring has room, the steal copies
  exactly \<open>k - k div 2 = \<lceil>k / 2\<rceil>\<close> elements, those at the victim's head in order, into the
  thief's ring from the thief's tail on, advances the victim's head by that count, which
  leaves \<open>\<lfloor>k / 2\<rfloor>\<close> elements in the victim's ring, returns the last copied element to the
  caller and publishes the others by advancing the thief's tail. When the count computed from
  the snapshot exceeds 128, half the ring capacity (\<open>k > 256\<close>), the attempt is abandoned and
  the steal is retried on the next view of the victim.
\<close>

theorem runqsteal_half:
  assumes k: "k = unat (runqtail v - runqhead v)"
  shows "(0 < k \<and> k \<le> 256 \<and> unat (runqtail pp - runqhead pp) + (k - k div 2) \<le> 256 \<longrightarrow>
      runqsteal pp (v # vs) s =
        Some (Inr (runq v (unat (runqhead v + of_nat (k - k div 2 - 1)) mod 256),
          pp\<lparr>runq := runqgrab_copy v (runq pp) (runqtail pp) (runqhead v) (k - k div 2),
             runqtail := runqtail pp + of_nat (k - k div 2 - 1)\<rparr>,
          v\<lparr>runqhead := runqhead v + of_nat (k - k div 2)\<rparr>)) \<and>
      (\<forall>i < k - k div 2.
         runqgrab_copy v (runq pp) (runqtail pp) (runqhead v) (k - k div 2)
           (unat (runqtail pp + of_nat i) mod 256) =
         runq v (unat (runqhead v + of_nat i) mod 256)) \<and>
      unat (runqtail v - (runqhead v + of_nat (k - k div 2))) = k div 2 \<and>
      unat (runqtail pp + of_nat (k - k div 2 - 1) - runqhead pp) =
        unat (runqtail pp - runqhead pp) + (k - k div 2 - 1) \<and>
      k - k div 2 = (k + 1) div 2) \<and>
    (256 < k \<longrightarrow> runqsteal pp (v # vs) s = runqsteal pp vs s)"
proof (intro conjI impI allI)
  assume "256 < k"
  with k show "runqsteal pp (v # vs) s = runqsteal pp vs s"
    by (simp add: runqsteal_retry)
next
  assume a: "0 < k \<and> k \<le> 256 \<and> unat (runqtail pp - runqhead pp) + (k - k div 2) \<le> 256"
  with k show "runqsteal pp (v # vs) s =
        Some (Inr (runq v (unat (runqhead v + of_nat (k - k div 2 - 1)) mod 256),
          pp\<lparr>runq := runqgrab_copy v (runq pp) (runqtail pp) (runqhead v) (k - k div 2),
             runqtail := runqtail pp + of_nat (k - k div 2 - 1)\<rparr>,
          v\<lparr>runqhead := runqhead v + of_nat (k - k div 2)\<rparr>))"
    by (intro runqsteal_commit) auto
  show "k - k div 2 = (k + 1) div 2" by arith
  let ?d = "runqtail v - runqhead v"
  from k a have "unat (?d - ?d div 2) = k - k div 2"
    using steal_count(1) [of ?d] by simp
  then have n_eq: "?d - ?d div 2 = of_nat (k - k div 2)" by (rule word_of_unat)
  have "runqtail v - (runqhead v + (?d - ?d div 2)) = ?d - (?d - ?d div 2)" by simp
  then have "unat (runqtail v - (runqhead v + (?d - ?d div 2))) = unat ?d div 2"
    by (simp only: victim_left)
  then show "unat (runqtail v - (runqhead v + of_nat (k - k div 2))) = k div 2"
    unfolding n_eq k .
  from a have "k - k div 2 - 1 < 256" by arith
  then have m1: "k - k div 2 - 1 < 2 ^ 32" by simp
  then have u: "unat (of_nat (k - k div 2 - 1) :: u32) = k - k div 2 - 1"
    by (simp add: unat_of_nat)
  have e: "runqtail pp + x - runqhead pp = runqtail pp - runqhead pp + x" for x :: u32
    by simp
  have "unat (runqtail pp - runqhead pp + of_nat (k - k div 2 - 1)) =
      unat (runqtail pp - runqhead pp) + unat (of_nat (k - k div 2 - 1) :: u32)"
  proof (rule unat_add_lem [THEN iffD1])
    from a have "unat (runqtail pp - runqhead pp) + (k - k div 2 - 1) < 257" by arith
    then show "unat (runqtail pp - runqhead pp) + unat (of_nat (k - k div 2 - 1) :: u32)
        < 2 ^ LENGTH(32)"
      unfolding u by simp
  qed
  then show "unat (runqtail pp + of_nat (k - k div 2 - 1) - runqhead pp) =
        unat (runqtail pp - runqhead pp) + (k - k div 2 - 1)"
    unfolding e u .
next
  fix i
  assume a: "0 < k \<and> k \<le> 256 \<and> unat (runqtail pp - runqhead pp) + (k - k div 2) \<le> 256"
    and i: "i < k - k div 2"
  then show "runqgrab_copy v (runq pp) (runqtail pp) (runqhead v) (k - k div 2)
           (unat (runqtail pp + of_nat i) mod 256) =
         runq v (unat (runqhead v + of_nat i) mod 256)"
    by (intro runqgrab_copy_get) auto
qed

theorem runqsteal_half_witness:
  "case runqsteal p_empty [p_victim] False of
     Some (Inr (gp, pp', v')) \<Rightarrow>
       gp = 13 \<and> runq pp' 0 = 11 \<and> runq pp' 1 = 12 \<and> runq pp' 2 = 13 \<and>
       runqhead pp' = 0 \<and> runqtail pp' = 2 \<and> runqhead v' = 257 \<and> runqtail v' = 259
   | _ \<Rightarrow> False"
proof -
  have k: "5 = unat (runqtail p_victim - runqhead p_victim)"
    by (simp add: p_victim_def)
  have hyp: "0 < (5 :: nat) \<and> (5 :: nat) \<le> 256 \<and>
      unat (runqtail p_empty - runqhead p_empty) + (5 - 5 div 2) \<le> 256"
    by (simp add: p_empty_def)
  note t = runqsteal_half [OF k, of p_empty Nil False, THEN conjunct1, rule_format, OF hyp]
  from t have run: "runqsteal p_empty [p_victim] False =
      Some (Inr (13,
        p_empty\<lparr>runq := runqgrab_copy p_victim (runq p_empty) 0 254 3, runqtail := 2\<rparr>,
        p_victim\<lparr>runqhead := 257\<rparr>))"
    by (simp add: p_victim_def p_empty_def)
  from t have c: "\<forall>i<3. runqgrab_copy p_victim (runq p_empty) 0 254 3
      (unat (of_nat i :: u32) mod 256) = runq p_victim (unat (254 + of_nat i :: u32) mod 256)"
    by (simp add: p_victim_def p_empty_def)
  from c [rule_format, of 0] c [rule_format, of 1] c [rule_format, of 2]
  have "runqgrab_copy p_victim (runq p_empty) 0 254 3 0 = 11"
    "runqgrab_copy p_victim (runq p_empty) 0 254 3 1 = 12"
    "runqgrab_copy p_victim (runq p_empty) 0 254 3 2 = 13"
    by (simp_all add: p_victim_def)
  then show ?thesis unfolding run by (simp add: p_empty_def p_victim_def)
qed

section \<open>Properties of the global run queue\<close>
















section \<open>Properties of the dispatch loop\<close>


















section \<open>Properties of the stealing phase\<close>














section \<open>Properties of readying\<close>





lemma locks_inc_fields [simp]:
  "sched (locks_inc cur w) = sched w" "p_at (locks_inc cur w) = p_at w"
  "g_at (locks_inc cur w) = g_at w" "allp (locks_inc cur w) = allp w"
  "y \<noteq> g_m (g_at w cur) \<Longrightarrow> m_at (locks_inc cur w) y = m_at w y"
  "m_p (m_at (locks_inc cur w) y) = m_p (m_at w y)"
  "m_spinning (m_at (locks_inc cur w) y) = m_spinning (m_at w y)"
  "m_nextp (m_at (locks_inc cur w) y) = m_nextp (m_at w y)"
  by (simp_all add: locks_inc_def Let_def)

lemma locks_dec_fields [simp]:
  "sched (locks_dec cur w) = sched w" "p_at (locks_dec cur w) = p_at w"
  "allp (locks_dec cur w) = allp w"
  "y \<noteq> g_m (g_at w cur) \<Longrightarrow> m_at (locks_dec cur w) y = m_at w y"
  "m_p (m_at (locks_dec cur w) y) = m_p (m_at w y)"
  "m_spinning (m_at (locks_dec cur w) y) = m_spinning (m_at w y)"
  "m_nextp (m_at (locks_dec cur w) y) = m_nextp (m_at w y)"
  "m_park (m_at (locks_dec cur w) y) = m_park (m_at w y)"
  "m_mstartfn (m_at (locks_dec cur w) y) = m_mstartfn (m_at w y)"
  "atomicstatus (g_at (locks_dec cur w) x) = atomicstatus (g_at w x)"
  by (simp_all add: locks_dec_def Let_def)



lemma wakep_spinning: "nmspinning (sched w) \<noteq> 0 \<Longrightarrow> wakep newmp w = Inr w"
  by (simp add: wakep_def)



section \<open>Properties of task creation\<close>







end
